theory Spec2Isabelle
  imports
    Complex_Main
    "HOL-Library.Multiset"
    "HOL-Library.Sublist"
    "HOL-Library.Char_ord"
    "HOL-Library.List_Lexorder"
begin

section \<open>Shared conventions\<close>

text \<open>
  The two scripts compute on Python floats. The embedding takes them as \<^typ>\<open>real\<close>:
  comparisons, sums and means are exact, and NaN, the infinities and rounding are not
  represented. Library calls (scipy, numpy, pandas) are embedded by the algorithm or
  contract the library documents; the part of a library call that the documentation
  leaves open (the order numpy's default sort gives to equal keys, the grammar of the
  string parsers) is a parameter of the model.
\<close>

datatype error = AttributeError | IndexError

text \<open>Python's slice \<^verbatim>\<open>xs[:n]\<close>: a negative bound counts from the end.\<close>

definition slice_to :: "'a list \<Rightarrow> int \<Rightarrow> 'a list" where
  "slice_to xs n = (if 0 \<le> n then take (nat n) xs else take (length xs - nat (- n)) xs)"


section \<open>numpy.argsort\<close>

text \<open>
  \<^verbatim>\<open>np.argsort(a)\<close> with the default \<^verbatim>\<open>kind='quicksort'\<close> returns the indices that sort
  \<^verbatim>\<open>a\<close> ascending; the order it gives to equal elements is not specified. The functions
  below take the sort as a parameter \<open>argsort\<close>, and \<open>argsort_spec\<close> is the documented
  contract: a permutation of the positions, ascending in the values.
\<close>

definition argsort_spec :: "(real list \<Rightarrow> nat list) \<Rightarrow> bool" where
  "argsort_spec argsort \<longleftrightarrow>
     (\<forall>a. mset (argsort a) = mset [0..<length a] \<and> sorted (map (\<lambda>j. a ! j) (argsort a)))"

text \<open>
  On arrays of at most 17 elements numpy's scalar quicksort runs its insertion sort,
  which moves an element left only past strictly greater ones: the stable ordering.
\<close>

definition stable_argsort :: "real list \<Rightarrow> nat list" where
  "stable_argsort a = sort_key (\<lambda>j. a ! j) [0..<length a]"


section \<open>Peak Selector (pricePeaks.py)\<close>

subsection \<open>scipy.signal.find\_peaks\<close>

text \<open>
  \<^verbatim>\<open>find_peaks(values)\<close> without conditions returns the midpoints computed by scipy's
  \<^verbatim>\<open>_local_maxima_1d\<close>:
  \<^verbatim>\<open>
    i = 1; i_max = x.shape[0] - 1
    while i < i_max:
        if x[i - 1] < x[i]:
            i_ahead = i + 1
            while i_ahead < i_max and x[i_ahead] == x[i]:
                i_ahead += 1
            if x[i_ahead] < x[i]:
                left_edges[m] = i
                right_edges[m] = i_ahead - 1
                midpoints[m] = (left_edges[m] + right_edges[m]) // 2
                m += 1
                i = i_ahead
        i += 1
  \<close>
  With \<open>i \<ge> 1\<close> the test \<open>i < length x - 1\<close> on naturals agrees with the signed test of the
  source also for the empty array.
\<close>

function look_ahead :: "real list \<Rightarrow> nat \<Rightarrow> nat \<Rightarrow> nat" where
  "look_ahead x i i_ahead =
     (if i_ahead < length x - 1 \<and> x ! i_ahead = x ! i
      then look_ahead x i (i_ahead + 1) else i_ahead)"
  by pat_completeness auto
termination
  by (relation "measure (\<lambda>(x, i, i_ahead). length x - i_ahead)") auto

declare look_ahead.simps [simp del]

lemma look_ahead_ge: "i_ahead \<le> look_ahead x i i_ahead"
proof (induction x i i_ahead rule: look_ahead.induct)
  case (1 x i i_ahead)
  show ?case
  proof (cases "i_ahead < length x - 1 \<and> x ! i_ahead = x ! i")
    case True
    with "1" have "i_ahead + 1 \<le> look_ahead x i (i_ahead + 1)" by simp
    moreover from True have "look_ahead x i i_ahead = look_ahead x i (i_ahead + 1)"
      by (subst look_ahead.simps) simp
    ultimately show ?thesis by simp
  next
    case False
    then have "look_ahead x i i_ahead = i_ahead"
      by (subst look_ahead.simps) auto
    then show ?thesis by simp
  qed
qed

function local_maxima_1d :: "real list \<Rightarrow> nat \<Rightarrow> nat list" where
  "local_maxima_1d x i =
     (if i < length x - 1 then
        (if x ! (i - 1) < x ! i then
           (let i_ahead = look_ahead x i (i + 1) in
            if x ! i_ahead < x ! i
            then ((i + (i_ahead - 1)) div 2) # local_maxima_1d x (i_ahead + 1)
            else local_maxima_1d x (i + 1))
         else local_maxima_1d x (i + 1))
      else [])"
  by pat_completeness auto
termination
proof (relation "measure (\<lambda>(x, i). length x - i)")
  show "wf (measure (\<lambda>(x, i). length x - i))" by simp
next
  fix x :: "real list" and i i_ahead :: nat
  assume "i < length x - 1" and "i_ahead = look_ahead x i (i + 1)"
  moreover have "i + 1 \<le> look_ahead x i (i + 1)" by (rule look_ahead_ge)
  ultimately show "((x, i_ahead + 1), (x, i)) \<in> measure (\<lambda>(x, i). length x - i)"
    by simp
qed auto

declare local_maxima_1d.simps [simp del]

definition find_peaks :: "real list \<Rightarrow> nat list" where
  "find_peaks x = local_maxima_1d x 1"


subsection \<open>extract\_peaks\_from\_series\<close>

text \<open>
  \<^verbatim>\<open>
    peaks_indices, _ = find_peaks(values)
    if len(peaks_indices) == 0:
        return []
    peak_values = values[peaks_indices]
    sorted_peak_indices = peaks_indices[np.argsort(peak_values)[::-1]]
    top_peak_indices = sorted_peak_indices[:num_peaks]
    return [(dates[i], values[i]) for i in top_peak_indices]
  \<close>
  \<open>sorted_peak_indices\<close> and \<open>top_peak_indices\<close> are the local variables of those
  names; reading \<open>dates\<close> past its end raises IndexError.
\<close>

definition sorted_peak_indices :: "(real list \<Rightarrow> nat list) \<Rightarrow> real list \<Rightarrow> nat list" where
  "sorted_peak_indices argsort values =
     (let peaks_indices = find_peaks values;
          peak_values = map (\<lambda>i. values ! i) peaks_indices
      in map (\<lambda>j. peaks_indices ! j) (rev (argsort peak_values)))"

definition top_peak_indices :: "(real list \<Rightarrow> nat list) \<Rightarrow> real list \<Rightarrow> int \<Rightarrow> nat list" where
  "top_peak_indices argsort values num_peaks =
     slice_to (sorted_peak_indices argsort values) num_peaks"

definition extract_peaks_from_series ::
  "(real list \<Rightarrow> nat list) \<Rightarrow> 'd list \<Rightarrow> real list \<Rightarrow> int \<Rightarrow> error + ('d \<times> real) list" where
  "extract_peaks_from_series argsort dates values num_peaks =
     (if length (find_peaks values) = 0 then Inr []
      else
        let top = top_peak_indices argsort values num_peaks in
        if list_all (\<lambda>i. i < length dates) top
        then Inr (map (\<lambda>i. (dates ! i, values ! i)) top)
        else Inl IndexError)"

text \<open>
  The ranking as the specification words it: all detected peaks, by value descending,
  equal values in ascending position (a stable descending sort), cut to the first \<open>k\<close>.
\<close>

definition ranked_peaks_spec :: "real list \<Rightarrow> nat \<Rightarrow> nat list" where
  "ranked_peaks_spec values k = take k (sort_key (\<lambda>i. - (values ! i)) (find_peaks values))"

text \<open>
  A flat top as \<open>find_peaks\<close> reports it: \<open>i\<close> is the midpoint (rounded down) of a run
  \<open>l..r\<close> of equal samples inside the series whose two bordering samples are lower.
\<close>

definition flat_peak :: "real list \<Rightarrow> nat \<Rightarrow> nat \<Rightarrow> nat \<Rightarrow> bool" where
  "flat_peak x l r i \<longleftrightarrow>
     0 < l \<and> l \<le> r \<and> r + 1 < length x \<and> i = (l + r) div 2 \<and>
     list_all (\<lambda>j. x ! j = x ! i) [l..<r + 1] \<and> x ! (l - 1) < x ! i \<and> x ! (r + 1) < x ! i"


section \<open>Cohort Ranker (pricePeaks.py)\<close>












section \<open>Time-Series Reconstructor (insiderTransactions.py)\<close>

subsection \<open>Records, fields and the library parsers\<close>

text \<open>
  A transaction is a dictionary decoded from JSON, so a field holds any JSON value. A
  \<^verbatim>\<open>datetime.date\<close> is its proleptic Gregorian ordinal, an \<^typ>\<open>int\<close>: comparison of dates is
  comparison of ordinals and \<^verbatim>\<open>(end - start).days\<close> is their difference.
\<close>

datatype jval = JNull | JBool bool | JNum real | JStr string | JList "jval list"
  | JDict "(string \<times> jval) list"

type_synonym txn = "string \<rightharpoonup> jval"

definition dict_get :: "txn \<Rightarrow> string \<Rightarrow> jval \<Rightarrow> jval" where
  "dict_get d k dflt = (case d k of None \<Rightarrow> dflt | Some v \<Rightarrow> v)"

text \<open>
  \<^verbatim>\<open>datetime.datetime.strptime(s, "%Y-%m-%d").date()\<close> inside \<^verbatim>\<open>try/except Exception\<close>:
  \<open>None\<close> stands for any raised exception. A value that is not a string raises
  TypeError; on strings the parser is the parameter \<open>strptime\<close>, which gives the ordinal
  of the date it reads.
\<close>

definition parse_date :: "(string \<Rightarrow> int option) \<Rightarrow> jval \<Rightarrow> int option" where
  "parse_date strptime v = (case v of JStr s \<Rightarrow> strptime s | _ \<Rightarrow> None)"

text \<open>
  \<^verbatim>\<open>float(v)\<close> inside \<^verbatim>\<open>try/except Exception\<close>: a number converts to itself, a
  boolean to 0 or 1, a string goes through the parameter \<open>float_of_str\<close>, anything else
  raises TypeError.
\<close>

definition to_float :: "(string \<Rightarrow> real option) \<Rightarrow> jval \<Rightarrow> real option" where
  "to_float float_of_str v =
     (case v of
        JNum x \<Rightarrow> Some x
      | JBool b \<Rightarrow> Some (if b then 1 else 0)
      | JStr s \<Rightarrow> float_of_str s
      | _ \<Rightarrow> None)"

text \<open>
  \<^verbatim>\<open>.lower()\<close> exists on strings only; on any other value the attribute lookup raises
  AttributeError, and no handler surrounds it. Lower-casing is modelled on ASCII letters;
  no other character lower-cases to one of the letters of \<^verbatim>\<open>buy\<close> and \<^verbatim>\<open>sell\<close>.
\<close>

definition char_lower :: "char \<Rightarrow> char" where
  "char_lower c =
     (if CHR ''A'' \<le> c \<and> c \<le> CHR ''Z'' then char_of (of_char c + (32::nat)) else c)"

definition lower :: "jval \<Rightarrow> error + string" where
  "lower v = (case v of JStr s \<Rightarrow> Inr (map char_lower s) | _ \<Rightarrow> Inl AttributeError)"

subsection \<open>The loop over the transactions\<close>

text \<open>
  \<^verbatim>\<open>
    for txn in transactions:
        txn_date_str = txn.get("transactionDate", "")
        try:
            txn_date = datetime.datetime.strptime(txn_date_str, "%Y-%m-%d").date()
        except Exception:
            logging.warning(f"Skipping transaction with invalid date: {txn_date_str}")
            continue
        if txn_date < start_date or txn_date > end_date:
            continue
        try:
            value = float(txn.get("transactionValue", 0))
        except Exception:
            value = 0.0
        txn_type = txn.get("transactionType", "").lower()
        if "buy" in txn_type:
            net_value = value
        elif "sell" in txn_type:
            net_value = -value
        else:
            net_value = 0.0
        records.append({"date": txn_date, "net_value": net_value})
  \<close>
  \<open>process_txn\<close> is the body of the loop: what one iteration does to the state
  (a warning logged, nothing, a record appended) or the exception it raises.
  The state is the list \<open>records\<close> and the warnings written to the log.
\<close>

datatype outcome = Warned jval | Dropped | Appended "int \<times> real" | Raised error

definition process_txn ::
  "(string \<Rightarrow> int option) \<Rightarrow> (string \<Rightarrow> real option) \<Rightarrow> int \<Rightarrow> int \<Rightarrow> txn \<Rightarrow> outcome" where
  "process_txn strptime float_of_str start_date end_date txn =
     (let txn_date_str = dict_get txn ''transactionDate'' (JStr '''') in
      case parse_date strptime txn_date_str of
        None \<Rightarrow> Warned txn_date_str
      | Some txn_date \<Rightarrow>
          if txn_date < start_date \<or> txn_date > end_date then Dropped
          else
            let val = (case to_float float_of_str (dict_get txn ''transactionValue'' (JNum 0)) of
                         None \<Rightarrow> 0 | Some v \<Rightarrow> v)
            in case lower (dict_get txn ''transactionType'' (JStr '''')) of
                 Inl err \<Rightarrow> Raised err
               | Inr txn_type \<Rightarrow>
                   let net_value = (if sublist ''buy'' txn_type then val
                                    else if sublist ''sell'' txn_type then - val
                                    else 0)
                   in Appended (txn_date, net_value))"

text \<open>
  The loop returns the records it collected, or the exception that ended it, together
  with the warnings logged up to that point.
\<close>

fun collect_records ::
  "(string \<Rightarrow> int option) \<Rightarrow> (string \<Rightarrow> real option) \<Rightarrow> int \<Rightarrow> int \<Rightarrow> txn list \<Rightarrow>
   (int \<times> real) list \<Rightarrow> jval list \<Rightarrow> (error + (int \<times> real) list) \<times> jval list" where
  "collect_records strptime float_of_str start_date end_date [] records warnings =
     (Inr records, warnings)"
| "collect_records strptime float_of_str start_date end_date (txn # transactions) records warnings =
     (case process_txn strptime float_of_str start_date end_date txn of
        Warned v \<Rightarrow>
          collect_records strptime float_of_str start_date end_date transactions
            records (warnings @ [v])
      | Dropped \<Rightarrow>
          collect_records strptime float_of_str start_date end_date transactions
            records warnings
      | Appended r \<Rightarrow>
          collect_records strptime float_of_str start_date end_date transactions
            (records @ [r]) warnings
      | Raised err \<Rightarrow> (Inl err, warnings))"

text \<open>What an iteration contributes: the record it keeps, the warning it logs, whether it raises.\<close>

fun kept :: "outcome \<Rightarrow> (int \<times> real) option" where
  "kept (Appended r) = Some r"
| "kept _ = None"

fun warning :: "outcome \<Rightarrow> jval option" where
  "warning (Warned v) = Some v"
| "warning _ = None"

fun raised :: "outcome \<Rightarrow> bool" where
  "raised (Raised err) = True"
| "raised _ = False"

subsection \<open>The pandas pipeline\<close>

text \<open>
  \<^verbatim>\<open>
    if not records:
        return pd.DataFrame(columns=['date', 'net_insider'])
    df = pd.DataFrame(records)
    daily = df.groupby('date')['net_value'].sum().reset_index()
    daily = daily.sort_values('date')
    all_dates = pd.date_range(start=start_date, end=end_date)
    daily = daily.set_index('date').reindex(all_dates, fill_value=0)
                 .rename_axis('date').reset_index()
    daily['net_insider'] = daily['net_value'].cumsum()
    return daily[['date', 'net_insider']]
  \<close>
  A frame is the list of its rows; the frame without rows is the Empty result
  (\<^verbatim>\<open>history_df.empty\<close> in the caller).
\<close>

text \<open>\<open>net_on df d\<close> is the sum \<^verbatim>\<open>groupby('date')['net_value'].sum()\<close> forms for the group \<open>d\<close>.\<close>

definition net_on :: "(int \<times> real) list \<Rightarrow> int \<Rightarrow> real" where
  "net_on df d = sum_list (map snd (filter (\<lambda>r. fst r = d) df))"

definition groupby_sum :: "(int \<times> real) list \<Rightarrow> (int \<times> real) list" where
  "groupby_sum df = map (\<lambda>d. (d, net_on df d)) (sort (remdups (map fst df)))"

definition date_range :: "int \<Rightarrow> int \<Rightarrow> int list" where
  "date_range start_date end_date = [start_date..end_date]"

definition reindex :: "(int \<times> real) list \<Rightarrow> int list \<Rightarrow> (int \<times> real) list" where
  "reindex daily all_dates =
     map (\<lambda>d. (d, case map_of daily d of None \<Rightarrow> 0 | Some v \<Rightarrow> v)) all_dates"

fun cumsum_from :: "real \<Rightarrow> real list \<Rightarrow> real list" where
  "cumsum_from acc [] = []"
| "cumsum_from acc (x # xs) = (acc + x) # cumsum_from (acc + x) xs"

definition cumsum :: "real list \<Rightarrow> real list" where
  "cumsum xs = cumsum_from 0 xs"

text \<open>\<open>daily_frame\<close> is the frame \<open>daily\<close> after the reindex: one row (date, DailyNet).\<close>

definition daily_frame :: "(int \<times> real) list \<Rightarrow> int \<Rightarrow> int \<Rightarrow> (int \<times> real) list" where
  "daily_frame records start_date end_date =
     (let daily = groupby_sum records;
          daily = sort_key fst daily;
          all_dates = date_range start_date end_date
      in reindex daily all_dates)"

definition compute_insider_history ::
  "(string \<Rightarrow> int option) \<Rightarrow> (string \<Rightarrow> real option) \<Rightarrow> txn list \<Rightarrow> int \<Rightarrow> int \<Rightarrow>
   error + (int \<times> real) list" where
  "compute_insider_history strptime float_of_str transactions start_date end_date =
     (case fst (collect_records strptime float_of_str start_date end_date transactions [] []) of
        Inl err \<Rightarrow> Inl err
      | Inr records \<Rightarrow>
          if records = [] then Inr []
          else
            let daily = daily_frame records start_date end_date;
                net_insider = cumsum (map snd daily)
            in Inr (zip (map fst daily) net_insider))"

text \<open>What the call leaves in the log, and the records it keeps when it returns.\<close>

definition logged_warnings ::
  "(string \<Rightarrow> int option) \<Rightarrow> (string \<Rightarrow> real option) \<Rightarrow> txn list \<Rightarrow> int \<Rightarrow> int \<Rightarrow> jval list" where
  "logged_warnings strptime float_of_str transactions start_date end_date =
     snd (collect_records strptime float_of_str start_date end_date transactions [] [])"

definition surviving_records ::
  "(string \<Rightarrow> int option) \<Rightarrow> (string \<Rightarrow> real option) \<Rightarrow> txn list \<Rightarrow> int \<Rightarrow> int \<Rightarrow>
   (int \<times> real) list" where
  "surviving_records strptime float_of_str transactions start_date end_date =
     (case fst (collect_records strptime float_of_str start_date end_date transactions [] []) of
        Inl err \<Rightarrow> [] | Inr records \<Rightarrow> records)"

text \<open>An event survives validation and filtering: its date parses and lies in the window.\<close>

definition survives :: "(string \<Rightarrow> int option) \<Rightarrow> int \<Rightarrow> int \<Rightarrow> txn \<Rightarrow> bool" where
  "survives strptime start_date end_date txn =
     (case parse_date strptime (dict_get txn ''transactionDate'' (JStr '''')) of
        None \<Rightarrow> False
      | Some d \<Rightarrow> start_date \<le> d \<and> d \<le> end_date)"

text \<open>The type field of a transaction is absent or a string, so that \<^verbatim>\<open>.lower()\<close> exists.\<close>

definition type_is_text :: "txn \<Rightarrow> bool" where
  "type_is_text txn =
     (case dict_get txn ''transactionType'' (JStr []) of JStr ty \<Rightarrow> True | _ \<Rightarrow> False)"

text \<open>The amount the loop reads from a transaction: the parsed value, or 0 when parsing fails.\<close>

definition amount_of :: "(string \<Rightarrow> real option) \<Rightarrow> txn \<Rightarrow> real" where
  "amount_of float_of_str txn =
     (case to_float float_of_str (dict_get txn ''transactionValue'' (JNum 0)) of
        None \<Rightarrow> 0 | Some v \<Rightarrow> v)"

text \<open>A record with the three fields as strings or numbers, for the examples.\<close>

definition event :: "string \<Rightarrow> string \<Rightarrow> jval \<Rightarrow> txn" where
  "event d ty a =
     [''transactionDate'' \<mapsto> JStr d, ''transactionType'' \<mapsto> JStr ty, ''transactionValue'' \<mapsto> a]"

text \<open>
  A parser for the examples: it reads the days 2023-12-31 .. 2024-01-06
  (ordinals 738885 .. 738891) and rejects every other string.
\<close>

definition strptime_2024 :: "string \<Rightarrow> int option" where
  "strptime_2024 s =
     (if s = ''2023-12-31'' then Some 738885 else if s = ''2024-01-01'' then Some 738886
      else if s = ''2024-01-02'' then Some 738887 else if s = ''2024-01-03'' then Some 738888
      else if s = ''2024-01-04'' then Some 738889 else if s = ''2024-01-05'' then Some 738890
      else if s = ''2024-01-06'' then Some 738891 else None)"


section \<open>Properties of the sorting contract\<close>

lemma slice_to_pos: "0 \<le> n \<Longrightarrow> slice_to xs n = take (nat n) xs"
  by (simp add: slice_to_def)

lemma set_slice_to: "set (slice_to xs n) \<subseteq> set xs"
  by (auto simp: slice_to_def dest: in_set_takeD)

lemma argsort_spec_set: "argsort_spec argsort \<Longrightarrow> set (argsort a) = {0..<length a}"
  unfolding argsort_spec_def by (metis mset_eq_setD set_upt)

lemma argsort_spec_length: "argsort_spec argsort \<Longrightarrow> length (argsort a) = length a"
  unfolding argsort_spec_def by (metis length_upt mset_eq_length minus_nat.diff_0)

lemma argsort_spec_sorted: "argsort_spec argsort \<Longrightarrow> sorted (map (\<lambda>j. a ! j) (argsort a))"
  unfolding argsort_spec_def by blast

lemma argsort_spec_mset: "argsort_spec argsort \<Longrightarrow> mset (argsort a) = mset [0..<length a]"
  unfolding argsort_spec_def by blast

lemma stable_argsort_spec: "argsort_spec stable_argsort"
  unfolding argsort_spec_def stable_argsort_def by simp

lemma insort_key_map:
  "insort_key f (g x) (map g ys) = map g (insort_key (\<lambda>y. f (g y)) x ys)"
  by (induction ys) simp_all

lemma sort_key_map: "sort_key f (map g xs) = map g (sort_key (\<lambda>y. f (g y)) xs)"
  by (induction xs) (simp_all add: insort_key_map)

lemma insort_key_cong_on:
  "f x = g x \<Longrightarrow> (\<And>y. y \<in> set ys \<Longrightarrow> f y = g y) \<Longrightarrow> insort_key f x ys = insort_key g x ys"
  by (induction ys) simp_all

lemma sort_key_cong_on:
  "(\<And>y. y \<in> set xs \<Longrightarrow> f y = g y) \<Longrightarrow> sort_key f xs = sort_key g xs"
proof (induction xs)
  case Nil
  then show ?case by simp
next
  case (Cons x xs)
  then have "sort_key f xs = sort_key g xs" by simp
  moreover have "insort_key f x (sort_key g xs) = insort_key g x (sort_key g xs)"
    by (rule insort_key_cong_on) (simp_all add: Cons.prems)
  ultimately show ?case by simp
qed

lemma argsort_via_positions:
  "map (\<lambda>j. p ! j) (sort_key (\<lambda>j. map f p ! j) [0..<length p]) = sort_key f p"
proof -
  have "sort_key (\<lambda>j. map f p ! j) [0..<length p] = sort_key (\<lambda>j. f (p ! j)) [0..<length p]"
    by (rule sort_key_cong_on) simp
  moreover have "sort_key f (map (\<lambda>j. p ! j) [0..<length p]) =
      map (\<lambda>j. p ! j) (sort_key (\<lambda>j. f (p ! j)) [0..<length p])"
    by (rule sort_key_map)
  ultimately show ?thesis by (simp add: map_nth)
qed


section \<open>Properties of the Peak Selector\<close>

lemma look_ahead_props:
  "a \<le> length x - 1 \<Longrightarrow>
     look_ahead x i a \<le> length x - 1 \<and>
     (\<forall>j. a \<le> j \<and> j < look_ahead x i a \<longrightarrow> x ! j = x ! i)"
proof (induction x i a rule: look_ahead.induct)
  case (1 x i a)
  show ?case
  proof (cases "a < length x - 1 \<and> x ! a = x ! i")
    case True
    then have eq: "look_ahead x i a = look_ahead x i (a + 1)"
      by (subst look_ahead.simps) simp
    from True have "a + 1 \<le> length x - 1" by simp
    with "1.IH" True have ih: "look_ahead x i (a + 1) \<le> length x - 1"
      "\<forall>j. a + 1 \<le> j \<and> j < look_ahead x i (a + 1) \<longrightarrow> x ! j = x ! i" by simp_all
    show ?thesis
    proof (intro conjI allI impI)
      show "look_ahead x i a \<le> length x - 1" using ih eq by simp
    next
      fix j assume j: "a \<le> j \<and> j < look_ahead x i a"
      show "x ! j = x ! i"
      proof (cases "j = a")
        case True
        with \<open>a < length x - 1 \<and> x ! a = x ! i\<close> show ?thesis by simp
      next
        case False
        with j eq ih(2) show ?thesis by simp
      qed
    qed
  next
    case False
    then have "look_ahead x i a = a"
      by (subst look_ahead.simps) auto
    with "1.prems" show ?thesis by simp
  qed
qed

lemma local_maxima_1d_flat:
  "0 < i \<Longrightarrow> m \<in> set (local_maxima_1d x i) \<Longrightarrow> \<exists>l r. i \<le> l \<and> flat_peak x l r m"
proof (induction x i rule: local_maxima_1d.induct)
  case (1 x i)
  show ?case
  proof (cases "i < length x - 1")
    case False
    then have "local_maxima_1d x i = []" by (subst local_maxima_1d.simps) simp
    with "1.prems" show ?thesis by simp
  next
    case inr: True
    show ?thesis
    proof (cases "x ! (i - 1) < x ! i")
      case False
      with inr have eq: "local_maxima_1d x i = local_maxima_1d x (i + 1)"
        by (subst local_maxima_1d.simps) simp
      from "1.IH"(3) [OF inr False] "1.prems" eq
      obtain l r where "i + 1 \<le> l \<and> flat_peak x l r m" by auto
      then show ?thesis by (intro exI [of _ l] exI [of _ r]) simp
    next
      case up: True
      define a where "a = look_ahead x i (i + 1)"
      have a_ge: "i + 1 \<le> a" unfolding a_def by (rule look_ahead_ge)
      from inr have "i + 1 \<le> length x - 1" by simp
      from look_ahead_props [OF this, of i]
      have a_le: "a \<le> length x - 1" and flat: "\<forall>j. i + 1 \<le> j \<and> j < a \<longrightarrow> x ! j = x ! i"
        unfolding a_def by simp_all
      show ?thesis
      proof (cases "x ! a < x ! i")
        case False
        with inr up have eq: "local_maxima_1d x i = local_maxima_1d x (i + 1)"
          by (subst local_maxima_1d.simps) (simp add: a_def Let_def)
        from "1.IH"(2) [OF inr up a_def False] "1.prems" eq
        obtain l r where "i + 1 \<le> l \<and> flat_peak x l r m" by auto
        then show ?thesis by (intro exI [of _ l] exI [of _ r]) simp
      next
        case down: True
        with inr up have eq: "local_maxima_1d x i = ((i + (a - 1)) div 2) # local_maxima_1d x (a + 1)"
          by (subst local_maxima_1d.simps) (simp add: a_def Let_def)
        show ?thesis
        proof (cases "m = (i + (a - 1)) div 2")
          case True
          have mid: "i \<le> m \<and> m < a" using True a_ge by auto
          have xm: "x ! m = x ! i"
          proof (cases "m = i")
            case True then show ?thesis by simp
          next
            case False
            with mid flat show ?thesis by simp
          qed
          have flat': "x ! j = x ! m" if "i \<le> j" "j < a" for j
          proof (cases "j = i")
            case True then show ?thesis using xm by simp
          next
            case False
            with that have "i + 1 \<le> j \<and> j < a" by simp
            with flat have "x ! j = x ! i" by blast
            then show ?thesis using xm by simp
          qed
          have all: "list_all (\<lambda>j. x ! j = x ! m) [i..<a - 1 + 1]"
            unfolding list_all_iff
          proof
            fix j assume "j \<in> set [i..<a - 1 + 1]"
            then have "i \<le> j" "j < a" using a_ge by auto
            then show "x ! j = x ! m" by (rule flat')
          qed
          have "x ! (i - 1) < x ! m" "x ! (a - 1 + 1) < x ! m"
            using up down xm a_ge by simp_all
          moreover have "0 < i" "i \<le> a - 1" "a - 1 + 1 < length x" "m = (i + (a - 1)) div 2"
            using "1.prems"(1) a_ge a_le inr True down up by auto
          ultimately have "flat_peak x i (a - 1) m"
            unfolding flat_peak_def using all by blast
          then show ?thesis by blast
        next
          case False
          with "1.prems" eq have "m \<in> set (local_maxima_1d x (a + 1))" by simp
          with "1.IH"(1) [OF inr up a_def down]
          obtain l r where "a + 1 \<le> l \<and> flat_peak x l r m" by auto
          with a_ge have "i \<le> l \<and> flat_peak x l r m" by simp
          then show ?thesis by blast
        qed
      qed
    qed
  qed
qed

lemma find_peaks_flat: "m \<in> set (find_peaks x) \<Longrightarrow> \<exists>l r. flat_peak x l r m"
  unfolding find_peaks_def using local_maxima_1d_flat [of 1 m x] by auto

lemma flat_peak_interior:
  assumes "flat_peak x l r i"
  shows "0 < i \<and> i + 1 < length x \<and> x ! (i - 1) \<le> x ! i \<and> x ! (i + 1) \<le> x ! i"
proof -
  from assms have b: "0 < l" "l \<le> r" "r + 1 < length x" "i = (l + r) div 2"
    and eq: "\<And>j. l \<le> j \<Longrightarrow> j \<le> r \<Longrightarrow> x ! j = x ! i"
    and lo: "x ! (l - 1) < x ! i" and hi: "x ! (r + 1) < x ! i"
    by (auto simp: flat_peak_def list_all_iff)
  from b have i: "l \<le> i" "i \<le> r" by auto
  have "x ! (i - 1) \<le> x ! i"
  proof (cases "i = l")
    case True with lo show ?thesis by simp
  next
    case False with i eq [of "i - 1"] show ?thesis by simp
  qed
  moreover have "x ! (i + 1) \<le> x ! i"
  proof (cases "i = r")
    case True with hi show ?thesis by simp
  next
    case False with i eq [of "i + 1"] show ?thesis by simp
  qed
  ultimately show ?thesis using b i by auto
qed

lemma sorted_peak_indices_stable:
  "sorted_peak_indices stable_argsort values = rev (sort_key (\<lambda>i. values ! i) (find_peaks values))"
  unfolding sorted_peak_indices_def stable_argsort_def Let_def
  by (simp add: rev_map [symmetric] argsort_via_positions)

lemma sorted_peak_indices_mset:
  assumes "argsort_spec argsort"
  shows "mset (sorted_peak_indices argsort values) = mset (find_peaks values)"
proof -
  let ?p = "find_peaks values"
  let ?pv = "map (\<lambda>i. values ! i) ?p"
  have "mset (map (\<lambda>j. ?p ! j) (rev (argsort ?pv))) = image_mset (\<lambda>j. ?p ! j) (mset (argsort ?pv))"
    by simp
  also have "\<dots> = image_mset (\<lambda>j. ?p ! j) (mset [0..<length ?p])"
    using argsort_spec_mset [OF assms, of ?pv] by simp
  also have "\<dots> = mset (map (\<lambda>j. ?p ! j) [0..<length ?p])" by simp
  also have "\<dots> = mset ?p" by (simp add: map_nth)
  finally show ?thesis unfolding sorted_peak_indices_def Let_def .
qed

lemma sorted_peak_indices_descending:
  assumes "argsort_spec argsort"
  shows "sorted (rev (map (\<lambda>i. values ! i) (sorted_peak_indices argsort values)))"
proof -
  let ?p = "find_peaks values"
  let ?pv = "map (\<lambda>i. values ! i) ?p"
  have "set (argsort ?pv) = {0..<length ?p}"
    using argsort_spec_set [OF assms, of ?pv] by simp
  then have "map (\<lambda>j. values ! (?p ! j)) (argsort ?pv) = map (\<lambda>j. ?pv ! j) (argsort ?pv)"
    by (intro map_cong) auto
  then have "rev (map (\<lambda>i. values ! i) (sorted_peak_indices argsort values)) =
      map (\<lambda>j. ?pv ! j) (argsort ?pv)"
    unfolding sorted_peak_indices_def Let_def by (simp add: rev_map comp_def)
  with argsort_spec_sorted [OF assms, of ?pv] show ?thesis by simp
qed

lemma sorted_peak_indices_in_range:
  assumes "argsort_spec argsort"
  shows "set (sorted_peak_indices argsort values) = set (find_peaks values)"
  using sorted_peak_indices_mset [OF assms, of "values"] by (rule mset_eq_setD)

lemma find_peaks_in_range: "i \<in> set (find_peaks values) \<Longrightarrow> i < length values"
  using find_peaks_flat [of i "values"] flat_peak_interior [of "values" _ _ i] by fastforce

text \<open>
  C1, as amended. Every index the Peak Selector returns is an interior position whose
  value is at least that of both neighbours, and it is the midpoint (rounded down) of a
  run of equal values whose two bordering samples are strictly lower. Both neighbours
  are strictly lower exactly in the case where that run is the single sample.
\<close>

theorem returned_peak_is_flat_top:
  assumes "argsort_spec argsort"
    and "i \<in> set (top_peak_indices argsort values num_peaks)"
  shows "0 < i \<and> i + 1 < length values \<and>
         values ! (i - 1) \<le> values ! i \<and> values ! (i + 1) \<le> values ! i \<and>
         (\<exists>l r. flat_peak values l r i \<and>
                (l = r \<longrightarrow> values ! (i - 1) < values ! i \<and> values ! (i + 1) < values ! i))"
proof -
  have "i \<in> set (sorted_peak_indices argsort values)"
    using assms(2) set_slice_to unfolding top_peak_indices_def by fastforce
  then have "i \<in> set (find_peaks values)"
    by (simp add: sorted_peak_indices_in_range [OF assms(1)])
  then obtain l r where f: "flat_peak values l r i"
    using find_peaks_flat by blast
  have "l = r \<longrightarrow> values ! (i - 1) < values ! i \<and> values ! (i + 1) < values ! i"
    using f unfolding flat_peak_def by auto
  with f flat_peak_interior [OF f] show ?thesis by blast
qed

theorem returned_peak_is_flat_top_witness:
  "argsort_spec stable_argsort \<and>
   (1::nat) \<in> set (top_peak_indices stable_argsort [1, 2, 2, 1] 3) \<and>
   (0::nat) < 1 \<and> (1::nat) + 1 < length [1, 2, 2, 1 :: real] \<and>
   (\<exists>l r. flat_peak [1, 2, 2, 1] l r 1)"
proof -
  have a: "argsort_spec stable_argsort" by (rule stable_argsort_spec)
  have b: "(1::nat) \<in> set (top_peak_indices stable_argsort [1, 2, 2, 1] 3)" by code_simp
  from returned_peak_is_flat_top [OF a b] a b show ?thesis by auto
qed

text \<open>
  C1 as stated fails on a plateau: in the series 1, 2, 2, 1 the Peak Selector returns
  index 1, whose right neighbour has the same value.
\<close>

theorem plateau_peak_counterexample:
  "top_peak_indices stable_argsort [1, 2, 2, 1] 3 = [1] \<and>
   \<not> ([1, 2, 2, 1 :: real] ! 1 > [1, 2, 2, 1] ! 2)"
  by code_simp

text \<open>
  C2, as amended. For a positive \<open>k\<close> the output is the first \<open>k\<close> elements of an
  arrangement of all detected peaks by value descending (the reversed ascending
  argsort): its values never increase, its length is the smaller of \<open>k\<close> and the number
  of peaks, and with \<open>k\<close> at least the number of peaks it holds exactly the detected
  peaks. The order among equal values is the reverse of the one argsort gives them;
  under the stable argsort equal peaks appear later position first.
\<close>

theorem top_peaks_descending_prefix:
  assumes "argsort_spec argsort" and "0 < k"
  shows "top_peak_indices argsort values k = take (nat k) (sorted_peak_indices argsort values) \<and>
         mset (sorted_peak_indices argsort values) = mset (find_peaks values) \<and>
         sorted (rev (map (\<lambda>i. values ! i) (sorted_peak_indices argsort values))) \<and>
         sorted (rev (map (\<lambda>i. values ! i) (top_peak_indices argsort values k))) \<and>
         length (top_peak_indices argsort values k) = min (nat k) (length (find_peaks values)) \<and>
         (length (find_peaks values) \<le> nat k \<longrightarrow>
            mset (top_peak_indices argsort values k) = mset (find_peaks values)) \<and>
         (length dates = length values \<longrightarrow>
            extract_peaks_from_series argsort dates values k =
              Inr (map (\<lambda>i. (dates ! i, values ! i)) (top_peak_indices argsort values k))) \<and>
         sorted_peak_indices stable_argsort values =
           rev (sort_key (\<lambda>i. values ! i) (find_peaks values))"
proof -
  let ?full = "sorted_peak_indices argsort values"
  let ?top = "top_peak_indices argsort values k"
  have top: "?top = take (nat k) ?full"
    using assms(2) by (simp add: top_peak_indices_def slice_to_pos)
  have ms: "mset ?full = mset (find_peaks values)"
    by (rule sorted_peak_indices_mset [OF assms(1)])
  have len: "length ?full = length (find_peaks values)"
    using ms by (rule mset_eq_length)
  have desc: "sorted (rev (map (\<lambda>i. values ! i) ?full))"
    by (rule sorted_peak_indices_descending [OF assms(1)])
  then have "sorted_wrt (\<lambda>a b. b \<le> a) (map (\<lambda>i. values ! i) ?full)"
    by (simp add: sorted_wrt_rev)
  then have "sorted_wrt (\<lambda>a b. b \<le> a) (take (nat k) (map (\<lambda>i. values ! i) ?full))"
    by (rule sorted_wrt_take)
  then have desc_top: "sorted (rev (map (\<lambda>i. values ! i) ?top))"
    by (simp add: top take_map sorted_wrt_rev)
  have len_top: "length ?top = min (nat k) (length (find_peaks values))"
    by (simp add: top len min.commute)
  have all: "length (find_peaks values) \<le> nat k \<longrightarrow> mset ?top = mset (find_peaks values)"
    by (simp add: top len ms)
  have ext: "length dates = length values \<longrightarrow>
      extract_peaks_from_series argsort dates values k =
        Inr (map (\<lambda>i. (dates ! i, values ! i)) ?top)"
  proof
    assume eq: "length dates = length values"
    have "set ?top \<subseteq> set (find_peaks values)"
      using set_take_subset [of "nat k" ?full]
      by (simp add: top sorted_peak_indices_in_range [OF assms(1)])
    then have "list_all (\<lambda>i. i < length dates) ?top"
      unfolding list_all_iff using find_peaks_in_range eq by auto
    moreover have "find_peaks values = [] \<Longrightarrow> ?top = []"
      using len by (simp add: top)
    ultimately show "extract_peaks_from_series argsort dates values k =
        Inr (map (\<lambda>i. (dates ! i, values ! i)) ?top)"
      unfolding extract_peaks_from_series_def Let_def by auto
  qed
  from top ms desc desc_top len_top all ext sorted_peak_indices_stable [of "values"]
  show ?thesis by blast
qed

theorem top_peaks_descending_prefix_witness:
  "argsort_spec stable_argsort \<and> (0::int) < 2 \<and>
   top_peak_indices stable_argsort [1, 3, 2, 5, 4, 5, 1] 2 =
     take (nat 2) (sorted_peak_indices stable_argsort [1, 3, 2, 5, 4, 5, 1]) \<and>
   length (top_peak_indices stable_argsort [1, 3, 2, 5, 4, 5, 1] 2) =
     min (nat 2) (length (find_peaks [1, 3, 2, 5, 4, 5, 1])) \<and>
   sorted_peak_indices stable_argsort [1, 3, 2, 5, 4, 5, 1] = [5, 3, 1]"
proof -
  have a: "argsort_spec stable_argsort" by (rule stable_argsort_spec)
  have b: "(0::int) < 2" by simp
  have c: "sorted_peak_indices stable_argsort [1, 3, 2, 5, 4, 5, 1] = [5, 3, 1]" by code_simp
  from top_peaks_descending_prefix [OF a b, of "[1, 3, 2, 5, 4, 5, 1]" "[]"] a b c
  show ?thesis by blast
qed

text \<open>
  C2 as stated fails on its own scenario: for the series 1, 3, 2, 5, 4, 5, 1 and
  \<open>k = 2\<close> the two peaks of value 5 come out later position first, index 5 before
  index 3, where the stated ranking puts index 3 first.
\<close>

theorem tie_order_counterexample:
  "extract_peaks_from_series stable_argsort [0, 1, 2, 3, 4, 5, 6 :: nat] [1, 3, 2, 5, 4, 5, 1] 2 =
     Inr [(5, 5), (3, 5)] \<and>
   top_peak_indices stable_argsort [1, 3, 2, 5, 4, 5, 1] 2 = [5, 3] \<and>
   ranked_peaks_spec [1, 3, 2, 5, 4, 5, 1] 2 = [3, 5]"
  by code_simp


section \<open>Properties of the Cohort Ranker\<close>




















section \<open>Properties of the Time-Series Reconstructor\<close>

subsection \<open>The loop\<close>

lemma lower_error: "lower v = Inl err \<Longrightarrow> err = AttributeError"
  by (cases v) (simp_all add: lower_def)

lemma process_txn_raised:
  "process_txn strptime float_of_str start_date end_date txn = Raised err \<Longrightarrow> err = AttributeError"
  unfolding process_txn_def Let_def
  by (auto split: option.splits if_splits sum.splits dest: lower_error)

lemma collect_records_char:
  "fst (collect_records strptime float_of_str start_date end_date txns records warnings) =
     (let outs = map (process_txn strptime float_of_str start_date end_date) txns in
      if list_ex raised outs then Inl AttributeError
      else Inr (records @ List.map_filter kept outs))"
proof (induction txns arbitrary: records warnings)
  case Nil
  then show ?case by (simp add: List.map_filter_simps)
next
  case (Cons txn txns)
  show ?case
  proof (cases "process_txn strptime float_of_str start_date end_date txn")
    case (Warned v)
    then show ?thesis using Cons.IH [of records "warnings @ [v]"]
      by (simp add: Let_def List.map_filter_simps)
  next
    case Dropped
    then show ?thesis using Cons.IH [of records warnings]
      by (simp add: Let_def List.map_filter_simps)
  next
    case (Appended r)
    then show ?thesis using Cons.IH [of "records @ [r]" warnings]
      by (simp add: Let_def List.map_filter_simps)
  next
    case (Raised err)
    then have "err = AttributeError" by (rule process_txn_raised)
    with Raised show ?thesis by (simp add: Let_def)
  qed
qed



subsection \<open>The daily frame\<close>



lemma net_on_absent: "d \<notin> fst ` set r \<Longrightarrow> net_on r d = 0"
proof -
  assume "d \<notin> fst ` set r"
  then have "filter (\<lambda>x. fst x = d) r = []" by (auto simp: filter_empty_conv)
  then show ?thesis by (simp add: net_on_def)
qed

lemma groupby_sum_keys: "map fst (groupby_sum r) = sort (remdups (map fst r))"
  by (simp add: groupby_sum_def comp_def)

lemma map_of_sorted_groupby:
  "map_of (sort_key fst (groupby_sum r)) d =
     (if d \<in> fst ` set r then Some (net_on r d) else None)"
proof -
  let ?g = "sort_key fst (groupby_sum r)"
  have "mset (map fst ?g) = mset (map fst (groupby_sum r))" by (metis mset_map mset_sort)
  moreover have "distinct (map fst (groupby_sum r))" by (simp add: groupby_sum_keys)
  ultimately have dist: "distinct (map fst ?g)" using mset_eq_imp_distinct_iff by blast
  have set_g: "set ?g = (\<lambda>d. (d, net_on r d)) ` fst ` set r"
    by (simp add: groupby_sum_def)
  show ?thesis
  proof (cases "d \<in> fst ` set r")
    case True
    then have "(d, net_on r d) \<in> set ?g" unfolding set_g by blast
    then have "map_of ?g d = Some (net_on r d)" using dist by simp
    with True show ?thesis by simp
  next
    case False
    then have "d \<notin> fst ` set ?g" unfolding set_g by force
    then have "map_of ?g d = None" by (simp add: map_of_eq_None_iff)
    with False show ?thesis by simp
  qed
qed

lemma daily_frame_eq:
  "daily_frame r start_date end_date = map (\<lambda>d. (d, net_on r d)) [start_date..end_date]"
  unfolding daily_frame_def Let_def reindex_def date_range_def
  by (simp add: map_of_sorted_groupby net_on_absent)

subsection \<open>The running total\<close>

lemma length_cumsum_from: "length (cumsum_from acc xs) = length xs"
  by (induction xs arbitrary: acc) simp_all



lemma length_cumsum: "length (cumsum xs) = length xs"
  by (simp add: cumsum_def length_cumsum_from)



subsection \<open>The whole computation\<close>

lemma compute_insider_history_char:
  "compute_insider_history strptime float_of_str txns start_date end_date =
     (let outs = map (process_txn strptime float_of_str start_date end_date) txns;
          recs = List.map_filter kept outs
      in if list_ex raised outs then Inl AttributeError
         else if recs = [] then Inr []
         else Inr (zip [start_date..end_date] (cumsum (map (net_on recs) [start_date..end_date]))))"
  unfolding compute_insider_history_def collect_records_char
  by (simp add: Let_def daily_frame_eq comp_def)

lemma surviving_records_char:
  "surviving_records strptime float_of_str txns start_date end_date =
     (let outs = map (process_txn strptime float_of_str start_date end_date) txns
      in if list_ex raised outs then [] else List.map_filter kept outs)"
  unfolding surviving_records_def collect_records_char by (simp add: Let_def)

lemma process_txn_cases:
  "process_txn strptime float_of_str start_date end_date txn =
     (case parse_date strptime (dict_get txn ''transactionDate'' (JStr [])) of
        None \<Rightarrow> Warned (dict_get txn ''transactionDate'' (JStr []))
      | Some d \<Rightarrow>
          if d < start_date \<or> end_date < d then Dropped
          else if type_is_text txn
          then Appended (d,
                 case lower (dict_get txn ''transactionType'' (JStr [])) of
                   Inl err \<Rightarrow> 0
                 | Inr txn_type \<Rightarrow>
                     if sublist ''buy'' txn_type then amount_of float_of_str txn
                     else if sublist ''sell'' txn_type then - amount_of float_of_str txn
                     else 0)
          else Raised AttributeError)"
  unfolding process_txn_def Let_def type_is_text_def amount_of_def lower_def
  by (auto split: option.splits jval.splits)

lemma kept_in_window:
  assumes "kept (process_txn strptime float_of_str start_date end_date txn) = Some (d, v)"
  shows "start_date \<le> d \<and> d \<le> end_date \<and>
         parse_date strptime (dict_get txn ''transactionDate'' (JStr [])) = Some d"
  using assms unfolding process_txn_cases by (auto split: option.splits if_splits)

lemma survives_iff:
  "survives strptime start_date end_date txn \<longleftrightarrow>
     kept (process_txn strptime float_of_str start_date end_date txn) \<noteq> None \<or>
     raised (process_txn strptime float_of_str start_date end_date txn)"
  unfolding process_txn_cases survives_def by (auto split: option.splits)

lemma raised_iff:
  "raised (process_txn strptime float_of_str start_date end_date txn) \<longleftrightarrow>
     survives strptime start_date end_date txn \<and> \<not> type_is_text txn"
  unfolding process_txn_cases survives_def by (auto split: option.splits)

lemma map_filter_empty_iff: "List.map_filter f xs = [] \<longleftrightarrow> (\<forall>x \<in> set xs. f x = None)"
  unfolding List.map_filter_def by (auto simp: filter_empty_conv)

lemma no_survivor_iff:
  "\<not> list_ex (survives strptime start_date end_date) txns \<longleftrightarrow>
     \<not> list_ex raised (map (process_txn strptime float_of_str start_date end_date) txns) \<and>
     List.map_filter kept (map (process_txn strptime float_of_str start_date end_date) txns) = []"
proof -
  have "survives strptime start_date end_date t \<longleftrightarrow>
      kept (process_txn strptime float_of_str start_date end_date t) \<noteq> None \<or>
      raised (process_txn strptime float_of_str start_date end_date t)" for t
    by (rule survives_iff)
  then show ?thesis
    unfolding map_filter_empty_iff list_ex_iff by (simp only: set_map) blast
qed

lemma set_map_filter_conv: "set (List.map_filter f xs) = {y. \<exists>x \<in> set xs. f x = Some y}"
  unfolding List.map_filter_def by force

lemma records_in_window:
  assumes "(d, v) \<in> set (List.map_filter kept (map (process_txn strptime float_of_str start_date end_date) txns))"
  shows "start_date \<le> d \<and> d \<le> end_date \<and>
         list_ex (\<lambda>t. parse_date strptime (dict_get t ''transactionDate'' (JStr [])) = Some d) txns"
proof -
  from assms obtain t where t: "t \<in> set txns"
    and k: "kept (process_txn strptime float_of_str start_date end_date t) = Some (d, v)"
    unfolding set_map_filter_conv by auto
  from kept_in_window [OF k] t show ?thesis unfolding list_ex_iff by blast
qed

lemma zip_cumsum_length:
  "length (zip ds (cumsum (map f ds))) = length ds"
  by (simp add: length_cumsum)

lemma history_shape:
  assumes "compute_insider_history strptime float_of_str txns start_date end_date = Inr df"
    and "df \<noteq> []"
  shows "\<not> list_ex raised (map (process_txn strptime float_of_str start_date end_date) txns)"
    and "surviving_records strptime float_of_str txns start_date end_date \<noteq> []"
    and "df = zip [start_date..end_date]
           (cumsum (map (net_on (surviving_records strptime float_of_str txns start_date end_date))
              [start_date..end_date]))"
proof -
  let ?outs = "map (process_txn strptime float_of_str start_date end_date) txns"
  show nr: "\<not> list_ex raised ?outs"
    using assms(1) unfolding compute_insider_history_char Let_def by (auto split: if_splits)
  then have sr: "surviving_records strptime float_of_str txns start_date end_date =
      List.map_filter kept ?outs"
    unfolding surviving_records_char Let_def by simp
  show "surviving_records strptime float_of_str txns start_date end_date \<noteq> []"
    using assms nr unfolding sr compute_insider_history_char Let_def by (auto split: if_splits)
  then show "df = zip [start_date..end_date]
           (cumsum (map (net_on (surviving_records strptime float_of_str txns start_date end_date))
              [start_date..end_date]))"
    using assms nr unfolding sr compute_insider_history_char Let_def by (auto split: if_splits)
qed

lemma map_filter_append:
  "List.map_filter f (xs @ ys) = List.map_filter f xs @ List.map_filter f ys"
  by (simp add: List.map_filter_def)

lemma compute_insider_history_cong:
  assumes "list_ex raised (map (process_txn strptime float_of_str start_date end_date) txns1) =
           list_ex raised (map (process_txn strptime float_of_str start_date end_date) txns2)"
    and "(List.map_filter kept (map (process_txn strptime float_of_str start_date end_date) txns1) = []) =
         (List.map_filter kept (map (process_txn strptime float_of_str start_date end_date) txns2) = [])"
    and "\<And>day. net_on (List.map_filter kept (map (process_txn strptime float_of_str start_date end_date) txns1)) day =
               net_on (List.map_filter kept (map (process_txn strptime float_of_str start_date end_date) txns2)) day"
  shows "compute_insider_history strptime float_of_str txns1 start_date end_date =
         compute_insider_history strptime float_of_str txns2 start_date end_date"
proof -
  let ?r1 = "List.map_filter kept (map (process_txn strptime float_of_str start_date end_date) txns1)"
  let ?r2 = "List.map_filter kept (map (process_txn strptime float_of_str start_date end_date) txns2)"
  have "map (net_on ?r1) [start_date..end_date] = map (net_on ?r2) [start_date..end_date]"
    by (rule map_cong [OF refl]) (rule assms(3))
  then show ?thesis
    unfolding compute_insider_history_char Let_def by (simp only: assms(1) assms(2))
qed

lemma compute_skip:
  assumes "kept (process_txn strptime float_of_str start_date end_date t) = None"
    and "\<not> raised (process_txn strptime float_of_str start_date end_date t)"
  shows "compute_insider_history strptime float_of_str (pre @ t # post) start_date end_date =
         compute_insider_history strptime float_of_str (pre @ post) start_date end_date"
  by (rule compute_insider_history_cong)
     (simp_all add: assms map_filter_append List.map_filter_simps)





subsection \<open>The claims about the Reconstructor\<close>

text \<open>
  C3. A non-Empty result has one row per calendar date of the window, in ascending
  order: \<open>(end - start).days + 1\<close> rows whose dates are exactly \<open>start..end\<close>; and a
  date of the window on which no transaction is dated has the DailyNet 0 in the frame
  the running total is taken of.
\<close>

theorem history_spans_window:
  assumes "compute_insider_history strptime float_of_str txns start_date end_date = Inr df"
    and "df \<noteq> []"
  shows "start_date \<le> end_date \<and>
         int (length df) = end_date - start_date + 1 \<and>
         map fst df = [start_date..end_date] \<and>
         map fst (daily_frame (surviving_records strptime float_of_str txns start_date end_date)
            start_date end_date) = [start_date..end_date] \<and>
         (\<forall>d. start_date \<le> d \<and> d \<le> end_date \<and>
              \<not> list_ex (\<lambda>t. parse_date strptime (dict_get t ''transactionDate'' (JStr [])) = Some d) txns
              \<longrightarrow> (d, 0) \<in> set (daily_frame
                    (surviving_records strptime float_of_str txns start_date end_date)
                    start_date end_date))"
proof -
  let ?R = "surviving_records strptime float_of_str txns start_date end_date"
  let ?D = "[start_date..end_date]"
  let ?outs = "map (process_txn strptime float_of_str start_date end_date) txns"
  have df: "df = zip ?D (cumsum (map (net_on ?R) ?D))"
    by (rule history_shape(3) [OF assms])
  have nr: "\<not> list_ex raised ?outs" by (rule history_shape(1) [OF assms])
  then have R: "?R = List.map_filter kept ?outs"
    unfolding surviving_records_char Let_def by simp
  have len: "length df = length ?D" by (subst df) (simp add: length_cumsum)
  with assms(2) have "?D \<noteq> []" by auto
  then have le: "start_date \<le> end_date" by (cases "start_date \<le> end_date") simp_all
  have n: "int (length df) = end_date - start_date + 1" using len le by simp
  have dates: "map fst df = ?D" by (subst df) (simp add: length_cumsum)
  have frame: "map fst (daily_frame ?R start_date end_date) = ?D"
    by (simp add: daily_frame_eq comp_def)
  have zero: "(d, 0) \<in> set (daily_frame ?R start_date end_date)"
    if d: "start_date \<le> d" "d \<le> end_date"
      and none: "\<not> list_ex (\<lambda>t. parse_date strptime (dict_get t ''transactionDate'' (JStr [])) = Some d) txns"
    for d
  proof -
    have "d \<notin> fst ` set ?R"
    proof
      assume "d \<in> fst ` set ?R"
      then obtain v where "(d, v) \<in> set (List.map_filter kept ?outs)" unfolding R by force
      from records_in_window [OF this] none show False by blast
    qed
    then have "net_on ?R d = 0" by (rule net_on_absent)
    moreover have "(d, net_on ?R d) \<in> set (daily_frame ?R start_date end_date)"
      using d by (simp add: daily_frame_eq)
    ultimately show ?thesis by simp
  qed
  from le n dates frame zero show ?thesis by blast
qed

theorem history_spans_window_witness:
  "compute_insider_history strptime_2024 (\<lambda>s. None)
     [event ''2024-01-02'' ''Buy'' (JNum 100), event ''2024-01-02'' ''Sell'' (JNum 30),
      event ''2024-01-05'' ''Buy'' (JNum 50)] 738886 738891 =
     Inr [(738886, 0), (738887, 70), (738888, 70), (738889, 70), (738890, 120), (738891, 120)] \<and>
   [(738886, 0), (738887, 70), (738888, 70), (738889, 70), (738890, 120), (738891, 120 :: real)] \<noteq> [] \<and>
   (738886 :: int) \<le> 738891 \<and>
   int (length [(738886 :: int, 0 :: real), (738887, 70), (738888, 70), (738889, 70), (738890, 120),
     (738891, 120)]) = 738891 - 738886 + 1"
proof -
  have a: "compute_insider_history strptime_2024 (\<lambda>s. None)
     [event ''2024-01-02'' ''Buy'' (JNum 100), event ''2024-01-02'' ''Sell'' (JNum 30),
      event ''2024-01-05'' ''Buy'' (JNum 50)] 738886 738891 =
     Inr [(738886, 0), (738887, 70), (738888, 70), (738889, 70), (738890, 120), (738891, 120)]"
    by code_simp
  have b: "[(738886 :: int, 0 :: real), (738887, 70), (738888, 70), (738889, 70), (738890, 120),
     (738891, 120)] \<noteq> []" by simp
  from history_spans_window [OF a b] a b show ?thesis by blast
qed



text \<open>
  C6. The Reconstructor returns the Empty result exactly when no event survives validation
  and filtering. When some event survives and every type field is text, the result is a
  full series of \<open>(end - start).days + 1\<close> rows, whatever the amounts and types are:
  amounts that are zero or cancel, or types that are all Other, still give every row.
\<close>

theorem empty_iff_no_survivor:
  "(compute_insider_history strptime float_of_str txns start_date end_date = Inr [] \<longleftrightarrow>
      \<not> list_ex (survives strptime start_date end_date) txns) \<and>
   (list_ex (survives strptime start_date end_date) txns \<and> list_all type_is_text txns \<longrightarrow>
      (\<exists>df. compute_insider_history strptime float_of_str txns start_date end_date = Inr df \<and>
            df \<noteq> [] \<and> int (length df) = end_date - start_date + 1 \<and>
            map fst df = [start_date..end_date]))"
proof -
  let ?outs = "map (process_txn strptime float_of_str start_date end_date) txns"
  let ?recs = "List.map_filter kept ?outs"
  let ?D = "[start_date..end_date]"
  let ?series = "zip ?D (cumsum (map (net_on ?recs) ?D))"
  have window: "?D \<noteq> []" if "?recs \<noteq> []"
  proof -
    from that obtain d v where "(d, v) \<in> set ?recs" by (cases ?recs) auto
    from records_in_window [OF this] have "start_date \<le> end_date" by simp
    then show ?thesis by simp
  qed
  have series: "?series \<noteq> [] \<and> int (length ?series) = end_date - start_date + 1 \<and>
      map fst ?series = ?D" if "?recs \<noteq> []"
  proof -
    from window [OF that] have le: "start_date \<le> end_date"
      by (cases "start_date \<le> end_date") simp_all
    have "length ?series = length ?D" by (simp add: length_cumsum)
    moreover have "map fst ?series = ?D" by (simp add: length_cumsum)
    ultimately show ?thesis using le by auto
  qed
  have first: "compute_insider_history strptime float_of_str txns start_date end_date = Inr [] \<longleftrightarrow>
      \<not> list_ex (survives strptime start_date end_date) txns"
  proof
    assume e: "compute_insider_history strptime float_of_str txns start_date end_date = Inr []"
    then have nr: "\<not> list_ex raised ?outs"
      unfolding compute_insider_history_char Let_def by (auto split: if_splits)
    have "?recs = []"
    proof (rule ccontr)
      assume ne: "?recs \<noteq> []"
      with nr have "compute_insider_history strptime float_of_str txns start_date end_date =
          Inr ?series"
        unfolding compute_insider_history_char Let_def by simp
      with e series [OF ne] show False by simp
    qed
    with nr show "\<not> list_ex (survives strptime start_date end_date) txns"
      using no_survivor_iff [of strptime start_date end_date txns float_of_str] by blast
  next
    assume "\<not> list_ex (survives strptime start_date end_date) txns"
    then have "\<not> list_ex raised ?outs \<and> ?recs = []"
      using no_survivor_iff [of strptime start_date end_date txns float_of_str] by blast
    then show "compute_insider_history strptime float_of_str txns start_date end_date = Inr []"
      unfolding compute_insider_history_char Let_def by simp
  qed
  have second: "list_ex (survives strptime start_date end_date) txns \<and> list_all type_is_text txns \<longrightarrow>
      (\<exists>df. compute_insider_history strptime float_of_str txns start_date end_date = Inr df \<and>
            df \<noteq> [] \<and> int (length df) = end_date - start_date + 1 \<and>
            map fst df = [start_date..end_date])"
  proof
    assume a: "list_ex (survives strptime start_date end_date) txns \<and> list_all type_is_text txns"
    then have nr: "\<not> list_ex raised ?outs"
      unfolding list_ex_iff list_all_iff
      using raised_iff [of strptime float_of_str start_date end_date] by auto
    with a have ne: "?recs \<noteq> []"
      using no_survivor_iff [of strptime start_date end_date txns float_of_str] by blast
    with nr have "compute_insider_history strptime float_of_str txns start_date end_date =
        Inr ?series"
      unfolding compute_insider_history_char Let_def by simp
    with series [OF ne] show "\<exists>df. compute_insider_history strptime float_of_str txns start_date end_date = Inr df \<and>
            df \<noteq> [] \<and> int (length df) = end_date - start_date + 1 \<and>
            map fst df = [start_date..end_date]"
      by blast
  qed
  from first second show ?thesis by blast
qed

theorem empty_iff_no_survivor_witness:
  "list_ex (survives strptime_2024 738886 738891)
     [event ''2024-01-02'' ''Buy'' (JNum 100), event ''2024-01-02'' ''Sell'' (JNum 100),
      event ''2024-01-03'' ''Gift'' (JNum 7)] \<and>
   list_all type_is_text
     [event ''2024-01-02'' ''Buy'' (JNum 100), event ''2024-01-02'' ''Sell'' (JNum 100),
      event ''2024-01-03'' ''Gift'' (JNum 7)] \<and>
   compute_insider_history strptime_2024 (\<lambda>s. None)
     [event ''2024-01-02'' ''Buy'' (JNum 100), event ''2024-01-02'' ''Sell'' (JNum 100),
      event ''2024-01-03'' ''Gift'' (JNum 7)] 738886 738891 =
     Inr [(738886, 0), (738887, 0), (738888, 0), (738889, 0), (738890, 0), (738891, 0)] \<and>
   \<not> list_ex (survives strptime_2024 738886 738891)
     [event ''2023-12-31'' ''Buy'' (JNum 100), event ''yesterday'' ''Sell'' (JNum 100)] \<and>
   compute_insider_history strptime_2024 (\<lambda>s. None)
     [event ''2023-12-31'' ''Buy'' (JNum 100), event ''yesterday'' ''Sell'' (JNum 100)]
     738886 738891 = Inr []"
proof -
  have a: "list_ex (survives strptime_2024 738886 738891)
     [event ''2024-01-02'' ''Buy'' (JNum 100), event ''2024-01-02'' ''Sell'' (JNum 100),
      event ''2024-01-03'' ''Gift'' (JNum 7)]" by code_simp
  have b: "list_all type_is_text
     [event ''2024-01-02'' ''Buy'' (JNum 100), event ''2024-01-02'' ''Sell'' (JNum 100),
      event ''2024-01-03'' ''Gift'' (JNum 7)]" by code_simp
  have c: "compute_insider_history strptime_2024 (\<lambda>s. None)
     [event ''2024-01-02'' ''Buy'' (JNum 100), event ''2024-01-02'' ''Sell'' (JNum 100),
      event ''2024-01-03'' ''Gift'' (JNum 7)] 738886 738891 =
     Inr [(738886, 0), (738887, 0), (738888, 0), (738889, 0), (738890, 0), (738891, 0)]"
    by code_simp
  have d: "\<not> list_ex (survives strptime_2024 738886 738891)
     [event ''2023-12-31'' ''Buy'' (JNum 100), event ''yesterday'' ''Sell'' (JNum 100)]"
    by code_simp
  from empty_iff_no_survivor [of strptime_2024 "\<lambda>s. None"
      "[event ''2023-12-31'' ''Buy'' (JNum 100), event ''yesterday'' ''Sell'' (JNum 100)]"
      738886 738891] d
  have e: "compute_insider_history strptime_2024 (\<lambda>s. None)
     [event ''2023-12-31'' ''Buy'' (JNum 100), event ''yesterday'' ''Sell'' (JNum 100)]
     738886 738891 = Inr []" by blast
  from a b c d e show ?thesis by blast
qed

text \<open>
  C7. An event whose date field does not parse is dropped with one warning added to the
  log, and the loop goes on; an event whose date lies outside the window is dropped
  without a warning; in both cases the result is the one computed without the event. An
  amount field that does not parse is read as the amount 0 and the event stays: it is
  processed as the same event with the amount 0, and is recorded with net value 0.
\<close>

theorem malformed_event_fields:
  "(parse_date strptime (dict_get t ''transactionDate'' (JStr [])) = None \<longrightarrow>
      collect_records strptime float_of_str start_date end_date (t # ts) records warnings =
        collect_records strptime float_of_str start_date end_date ts records
          (warnings @ [dict_get t ''transactionDate'' (JStr [])]) \<and>
      compute_insider_history strptime float_of_str (pre @ t # post) start_date end_date =
        compute_insider_history strptime float_of_str (pre @ post) start_date end_date) \<and>
   (\<forall>d. parse_date strptime (dict_get t ''transactionDate'' (JStr [])) = Some d \<and>
        (d < start_date \<or> end_date < d) \<longrightarrow>
      collect_records strptime float_of_str start_date end_date (t # ts) records warnings =
        collect_records strptime float_of_str start_date end_date ts records warnings \<and>
      compute_insider_history strptime float_of_str (pre @ t # post) start_date end_date =
        compute_insider_history strptime float_of_str (pre @ post) start_date end_date) \<and>
   (to_float float_of_str (dict_get t ''transactionValue'' (JNum 0)) = None \<longrightarrow>
      amount_of float_of_str t = 0 \<and>
      process_txn strptime float_of_str start_date end_date t =
        process_txn strptime float_of_str start_date end_date (t(''transactionValue'' \<mapsto> JNum 0)) \<and>
      (\<forall>d. parse_date strptime (dict_get t ''transactionDate'' (JStr [])) = Some d \<and>
           start_date \<le> d \<and> d \<le> end_date \<and> type_is_text t \<longrightarrow>
         collect_records strptime float_of_str start_date end_date (t # ts) records warnings =
           collect_records strptime float_of_str start_date end_date ts (records @ [(d, 0)]) warnings))"
proof (intro conjI impI allI)
  assume a: "parse_date strptime (dict_get t ''transactionDate'' (JStr [])) = None"
  then have p: "process_txn strptime float_of_str start_date end_date t =
      Warned (dict_get t ''transactionDate'' (JStr []))"
    unfolding process_txn_cases by simp
  then show "collect_records strptime float_of_str start_date end_date (t # ts) records warnings =
        collect_records strptime float_of_str start_date end_date ts records
          (warnings @ [dict_get t ''transactionDate'' (JStr [])])"
    by simp
  show "compute_insider_history strptime float_of_str (pre @ t # post) start_date end_date =
        compute_insider_history strptime float_of_str (pre @ post) start_date end_date"
    by (rule compute_skip) (simp_all add: p)
next
  fix d
  assume a: "parse_date strptime (dict_get t ''transactionDate'' (JStr [])) = Some d \<and>
        (d < start_date \<or> end_date < d)"
  then have p: "process_txn strptime float_of_str start_date end_date t = Dropped"
    unfolding process_txn_cases by auto
  then show "collect_records strptime float_of_str start_date end_date (t # ts) records warnings =
        collect_records strptime float_of_str start_date end_date ts records warnings"
    by simp
  show "compute_insider_history strptime float_of_str (pre @ t # post) start_date end_date =
        compute_insider_history strptime float_of_str (pre @ post) start_date end_date"
    by (rule compute_skip) (simp_all add: p)
next
  assume a: "to_float float_of_str (dict_get t ''transactionValue'' (JNum 0)) = None"
  then show z: "amount_of float_of_str t = 0" by (simp add: amount_of_def)
  have d: "dict_get (t(''transactionValue'' \<mapsto> JNum 0)) ''transactionDate'' (JStr []) =
      dict_get t ''transactionDate'' (JStr [])"
    by (simp add: dict_get_def)
  have ty: "dict_get (t(''transactionValue'' \<mapsto> JNum 0)) ''transactionType'' (JStr []) =
      dict_get t ''transactionType'' (JStr [])"
    by (simp add: dict_get_def)
  have v: "amount_of float_of_str (t(''transactionValue'' \<mapsto> JNum 0)) = 0"
    by (simp add: amount_of_def dict_get_def to_float_def)
  show "process_txn strptime float_of_str start_date end_date t =
        process_txn strptime float_of_str start_date end_date (t(''transactionValue'' \<mapsto> JNum 0))"
    unfolding process_txn_cases type_is_text_def d ty v z by (rule refl)
  fix d
  assume b: "parse_date strptime (dict_get t ''transactionDate'' (JStr [])) = Some d \<and>
           start_date \<le> d \<and> d \<le> end_date \<and> type_is_text t"
  then have "process_txn strptime float_of_str start_date end_date t = Appended (d, 0)"
    unfolding process_txn_cases z by (auto split: sum.splits)
  then show "collect_records strptime float_of_str start_date end_date (t # ts) records warnings =
           collect_records strptime float_of_str start_date end_date ts (records @ [(d, 0)]) warnings"
    by simp
qed

theorem malformed_event_fields_witness:
  "parse_date strptime_2024 (dict_get (event ''01/02/2024'' ''Buy'' (JNum 5)) ''transactionDate'' (JStr [])) = None \<and>
   logged_warnings strptime_2024 (\<lambda>s. None)
     [event ''01/02/2024'' ''Buy'' (JNum 5), event ''2024-01-02'' ''Buy'' (JNum 7)] 738886 738891 =
     [JStr ''01/02/2024''] \<and>
   compute_insider_history strptime_2024 (\<lambda>s. None)
     ([] @ event ''01/02/2024'' ''Buy'' (JNum 5) # [event ''2024-01-02'' ''Buy'' (JNum 7)])
     738886 738891 =
   compute_insider_history strptime_2024 (\<lambda>s. None) ([] @ [event ''2024-01-02'' ''Buy'' (JNum 7)])
     738886 738891 \<and>
   parse_date strptime_2024 (dict_get (event ''2023-12-31'' ''Buy'' (JNum 5)) ''transactionDate'' (JStr [])) =
     Some 738885 \<and>
   compute_insider_history strptime_2024 (\<lambda>s. None)
     ([] @ event ''2023-12-31'' ''Buy'' (JNum 5) # [event ''2024-01-02'' ''Buy'' (JNum 7)])
     738886 738891 =
   compute_insider_history strptime_2024 (\<lambda>s. None) ([] @ [event ''2024-01-02'' ''Buy'' (JNum 7)])
     738886 738891 \<and>
   to_float (\<lambda>s. None)
     (dict_get (event ''2024-01-02'' ''Buy'' (JStr ''n/a'')) ''transactionValue'' (JNum 0)) = None \<and>
   amount_of (\<lambda>s. None) (event ''2024-01-02'' ''Buy'' (JStr ''n/a'')) = 0 \<and>
   compute_insider_history strptime_2024 (\<lambda>s. None)
     [event ''2024-01-02'' ''Buy'' (JStr ''n/a'')] 738886 738891 =
     Inr [(738886, 0), (738887, 0), (738888, 0), (738889, 0), (738890, 0), (738891, 0)]"
proof -
  have a: "parse_date strptime_2024
      (dict_get (event ''01/02/2024'' ''Buy'' (JNum 5)) ''transactionDate'' (JStr [])) = None"
    by code_simp
  have b: "parse_date strptime_2024
      (dict_get (event ''2023-12-31'' ''Buy'' (JNum 5)) ''transactionDate'' (JStr [])) = Some 738885 \<and>
      ((738885 :: int) < 738886 \<or> (738891 :: int) < 738885)"
    by code_simp
  have c: "to_float (\<lambda>s. None)
     (dict_get (event ''2024-01-02'' ''Buy'' (JStr ''n/a'')) ''transactionValue'' (JNum 0)) = None"
    by code_simp
  have l: "logged_warnings strptime_2024 (\<lambda>s. None)
     [event ''01/02/2024'' ''Buy'' (JNum 5), event ''2024-01-02'' ''Buy'' (JNum 7)] 738886 738891 =
     [JStr ''01/02/2024'']"
    by code_simp
  have r: "compute_insider_history strptime_2024 (\<lambda>s. None)
     [event ''2024-01-02'' ''Buy'' (JStr ''n/a'')] 738886 738891 =
     Inr [(738886, 0), (738887, 0), (738888, 0), (738889, 0), (738890, 0), (738891, 0)]"
    by code_simp
  from malformed_event_fields [of strptime_2024 "event ''01/02/2024'' ''Buy'' (JNum 5)"
      "\<lambda>s. None" 738886 738891 "[]" "[]" "[]" "[]" "[event ''2024-01-02'' ''Buy'' (JNum 7)]"] a
  have 1: "compute_insider_history strptime_2024 (\<lambda>s. None)
     ([] @ event ''01/02/2024'' ''Buy'' (JNum 5) # [event ''2024-01-02'' ''Buy'' (JNum 7)])
     738886 738891 =
   compute_insider_history strptime_2024 (\<lambda>s. None) ([] @ [event ''2024-01-02'' ''Buy'' (JNum 7)])
     738886 738891" by blast
  from malformed_event_fields [of strptime_2024 "event ''2023-12-31'' ''Buy'' (JNum 5)"
      "\<lambda>s. None" 738886 738891 "[]" "[]" "[]" "[]" "[event ''2024-01-02'' ''Buy'' (JNum 7)]"] b
  have 2: "compute_insider_history strptime_2024 (\<lambda>s. None)
     ([] @ event ''2023-12-31'' ''Buy'' (JNum 5) # [event ''2024-01-02'' ''Buy'' (JNum 7)])
     738886 738891 =
   compute_insider_history strptime_2024 (\<lambda>s. None) ([] @ [event ''2024-01-02'' ''Buy'' (JNum 7)])
     738886 738891" by blast
  from malformed_event_fields [of strptime_2024 "event ''2024-01-02'' ''Buy'' (JStr ''n/a'')"
      "\<lambda>s. None" 738886 738891 "[]" "[]" "[]" "[]" "[]"] c
  have 3: "amount_of (\<lambda>s. None) (event ''2024-01-02'' ''Buy'' (JStr ''n/a'')) = 0" by blast
  from a b c l r 1 2 3 show ?thesis by blast
qed

text \<open>
  C10. A surviving event whose type, lower-cased, contains both \<^verbatim>\<open>buy\<close> and \<^verbatim>\<open>sell\<close> is
  recorded as a Buy: its net value is the amount itself.
\<close>

theorem buy_takes_precedence:
  assumes "parse_date strptime (dict_get t ''transactionDate'' (JStr [])) = Some d"
    and "start_date \<le> d" and "d \<le> end_date"
    and "dict_get t ''transactionType'' (JStr []) = JStr ty"
    and "sublist ''buy'' (map char_lower ty)" and "sublist ''sell'' (map char_lower ty)"
  shows "process_txn strptime float_of_str start_date end_date t =
           Appended (d, amount_of float_of_str t) \<and>
         collect_records strptime float_of_str start_date end_date (t # ts) records warnings =
           collect_records strptime float_of_str start_date end_date ts
             (records @ [(d, amount_of float_of_str t)]) warnings"
proof -
  have "process_txn strptime float_of_str start_date end_date t =
      Appended (d, amount_of float_of_str t)"
    unfolding process_txn_cases type_is_text_def using assms by (simp add: lower_def)
  then show ?thesis by simp
qed

theorem buy_takes_precedence_witness:
  "parse_date strptime_2024
     (dict_get (event ''2024-01-02'' ''Sell (Buyback)'' (JNum 100)) ''transactionDate'' (JStr [])) =
     Some 738887 \<and>
   (738886 :: int) \<le> 738887 \<and> (738887 :: int) \<le> 738891 \<and>
   dict_get (event ''2024-01-02'' ''Sell (Buyback)'' (JNum 100)) ''transactionType'' (JStr []) =
     JStr ''Sell (Buyback)'' \<and>
   sublist ''buy'' (map char_lower ''Sell (Buyback)'') \<and>
   sublist ''sell'' (map char_lower ''Sell (Buyback)'') \<and>
   process_txn strptime_2024 (\<lambda>s. None) 738886 738891
     (event ''2024-01-02'' ''Sell (Buyback)'' (JNum 100)) =
     Appended (738887, amount_of (\<lambda>s. None) (event ''2024-01-02'' ''Sell (Buyback)'' (JNum 100))) \<and>
   amount_of (\<lambda>s. None) (event ''2024-01-02'' ''Sell (Buyback)'' (JNum 100)) = 100"
proof -
  have a: "parse_date strptime_2024
     (dict_get (event ''2024-01-02'' ''Sell (Buyback)'' (JNum 100)) ''transactionDate'' (JStr [])) =
     Some 738887" by code_simp
  have b: "(738886 :: int) \<le> 738887" and c: "(738887 :: int) \<le> 738891" by simp_all
  have d: "dict_get (event ''2024-01-02'' ''Sell (Buyback)'' (JNum 100)) ''transactionType'' (JStr []) =
     JStr ''Sell (Buyback)''" by code_simp
  have e: "sublist ''buy'' (map char_lower ''Sell (Buyback)'')" by code_simp
  have f: "sublist ''sell'' (map char_lower ''Sell (Buyback)'')" by code_simp
  have g: "amount_of (\<lambda>s. None) (event ''2024-01-02'' ''Sell (Buyback)'' (JNum 100)) = 100"
    by code_simp
  from buy_takes_precedence [OF a b c d e f, of "\<lambda>s. None" "[]" "[]" "[]"] a b c d e f g
  show ?thesis by blast
qed

text \<open>
  C9 fails on a record whose type field is present but not a string (JSON \<^verbatim>\<open>null\<close>):
  the date parses and lies in the window, so the loop reaches \<^verbatim>\<open>.lower()\<close>, which raises
  AttributeError outside every handler.
\<close>

theorem null_type_field_raises:
  "compute_insider_history strptime_2024 (\<lambda>s. None)
     [[''transactionDate'' \<mapsto> JStr ''2024-01-02'', ''transactionType'' \<mapsto> JNull,
       ''transactionValue'' \<mapsto> JStr ''5'']] 738886 738891 = Inl AttributeError"
  by code_simp



end
